theory Spec2Isabelle
  imports Complex_Main "HOL-Library.Sublist"
begin

section \<open>The caption pipeline of \<open>GoogleMeetCaptionDetector\<close>\<close>

text \<open>
  A shallow embedding of the class \<open>GoogleMeetCaptionDetector\<close> (the element-identity
  variant of the caption detector): the text differ \<open>extractNewWords\<close>, the observation
  pass \<open>checkForClosedCaptions\<close>, the word buffer (\<open>addToWordBuffer\<close>,
  \<open>processWordBuffer\<close>), the dispatch \<open>sendForTranslation\<close> and the session commands
  \<open>startCaptionDetection\<close> and \<open>stopCaptionDetection\<close>.

  The private fields of the class are the fields of the record \<open>detector\<close>, and every
  method takes the detector and returns it updated. What the browser does for the class is
  written into the same record: the pending \<open>setTimeout\<close> callbacks and the calls of the
  dispatch function. The document is not modelled: the element and text that the selector
  search of an observation pass ends with are an input of the pass.
\<close>

subsection \<open>Strings\<close>

text \<open>
  A JavaScript string is a sequence of UTF-16 code units and \<open>length\<close> counts them. The
  model has the strings whose code units are below 256 (the ISO-8859-1 repertoire), one
  \<open>char\<close> per code unit. On these, \<open>trim\<close> removes the code units 9 to 13, 32 and 160
  from both ends, and \<open>toLowerCase\<close> maps A to Z and the upper-case letters 192 to 222
  (without the multiplication sign 215) to the code unit 32 above.
\<close>

definition isWhiteSpace :: "char \<Rightarrow> bool" where
  "isWhiteSpace c = (of_char c \<in> {9, 10, 11, 12, 13, 32, 160 :: nat})"

definition trim :: "string \<Rightarrow> string" where
  "trim text = rev (dropWhile isWhiteSpace (rev (dropWhile isWhiteSpace text)))"

definition toLowerCaseChar :: "char \<Rightarrow> char" where
  "toLowerCaseChar c =
     (let n = (of_char c :: nat)
      in if (65 \<le> n \<and> n \<le> 90) \<or> (192 \<le> n \<and> n \<le> 222 \<and> n \<noteq> 215)
         then char_of (n + 32) else c)"

definition toLowerCase :: "string \<Rightarrow> string" where
  "toLowerCase text = map toLowerCaseChar text"

subsection \<open>The text differ\<close>

text \<open>
  \<^verbatim>\<open>const normalizeText = (text) => text.replace(/[.,!?;:]/g, '').toLowerCase().trim();\<close>
\<close>

definition normalizeText :: "string \<Rightarrow> string" where
  "normalizeText text = trim (toLowerCase (filter (\<lambda>c. c \<notin> set ''.,!?;:'') text))"

text \<open>
  \<open>extractNewWords(previousText, currentText)\<close>, with its four returns in the order of
  the source. \<open>!previousText\<close> holds of the empty string only; \<open>startsWith\<close> is
  \<open>prefix\<close>; \<open>substring(n)\<close> is \<open>drop n\<close>, empty when \<open>n\<close> is beyond the end.
\<close>

definition extractNewWords :: "string \<Rightarrow> string \<Rightarrow> string" where
  "extractNewWords previousText currentText =
     (if previousText = [] then currentText
      else
        let normalizedPrevious = normalizeText previousText;
            normalizedCurrent = normalizeText currentText
        in if length normalizedCurrent \<le> length normalizedPrevious then []
           else if \<not> prefix normalizedPrevious normalizedCurrent then []
           else
             let newPart = trim (drop (length previousText) currentText)
             in if length newPart \<ge> 2 then newPart else [])"

text \<open>
  The differ as the specification words it, for the comparison with the code: both texts
  are normalised (punctuation stripped, lower-cased, trimmed) for the comparison only; the
  result is empty unless the normalised current text is strictly longer than the
  normalised previous text and starts with it; otherwise it is the trimmed rest of the
  original current text from the length of the original previous text on, kept only when
  it has at least two characters.
\<close>

definition diff_spec :: "string \<Rightarrow> string \<Rightarrow> string" where
  "diff_spec previousText currentText =
     (if length (normalizeText previousText) < length (normalizeText currentText)
         \<and> prefix (normalizeText previousText) (normalizeText currentText)
      then (if 2 \<le> length (trim (drop (length previousText) currentText))
            then trim (drop (length previousText) currentText) else [])
      else [])"

subsection \<open>The detector\<close>

text \<open>
  The overlay element that \<open>createTranslationOverlay\<close> builds: the text of its two spans
  and whether its style is \<open>display: block\<close>.
\<close>

record overlay =
  original_text :: string
  translated_text :: string
  shown :: bool

text \<open>The object passed to \<open>displayTranslation\<close>.\<close>

record translation =
  originalText :: string
  translatedText :: string
  confidence :: real

text \<open>
  How the request of \<open>sendForTranslation\<close> ends: \<open>fetch\<close> (or \<open>response.json()\<close>)
  rejects, the response is not \<open>ok\<close>, or the response is \<open>ok\<close> and carries the fields of
  the result (\<open>None\<close> for an absent field; the audio data by its length).
\<close>

datatype fetch_outcome =
    Rejected
  | NotOk
  | Ok "string option" "string option" "real option" "nat option"

datatype audio = ElevenLabsAudio | TranslatedSpeech string

text \<open>
  The fields of the class, then the environment: \<open>timers\<close> holds the pending
  \<open>setTimeout\<close> callbacks that run \<open>processWordBuffer\<close>, each with its handle and the
  time it is due; \<open>nextTimerId\<close> is the next handle the browser gives out;
  \<open>sendCalls\<close> lists the arguments of the calls of \<open>sendForTranslation\<close>, oldest
  first; \<open>sendSeen\<close> lists, call by call, what the dispatch function finds in the
  detector at the moment it is called: whether its argument is in \<open>processedTexts\<close>, and
  the value of \<open>lastTranslationTime\<close>; \<open>played\<close> lists the audio started. A timer handle is a positive integer, so
  \<open>if (this.bufferTimeout)\<close> tests for \<open>Some\<close>. The field \<open>bufferTimeout\<close> keeps its
  handle after the timer has run; \<open>observer\<close> and \<open>checkInterval\<close> are non-null
  exactly while the observer is connected and the interval is armed, and are booleans.
  An element is known by its identity only, a number.
\<close>

record detector =
  isMonitoring :: bool
  lastProcessedText :: string
  processedWords :: "string set"
  translationOverlay :: "overlay option"
  targetLanguage :: string
  isConnected :: bool
  observer :: bool
  checkInterval :: bool
  monitoringActive :: bool
  lastTranslationTime :: int
  wordBuffer :: string
  bufferTimeout :: "nat option"
  processedTexts :: "string set"
  skippedTexts :: "string set"
  isFirstCaption :: bool
  lastSeenCaptionElement :: "nat option"
  timers :: "(nat \<times> int) list"
  nextTimerId :: nat
  sendCalls :: "string list"
  sendSeen :: "(bool \<times> int) list"
  played :: "audio list"

text \<open>The detector after its constructor: the field initialisers, then \<open>init()\<close>.\<close>

definition new_detector :: detector where
  "new_detector =
     \<lparr> isMonitoring = False, lastProcessedText = [], processedWords = {},
       translationOverlay = Some \<lparr> original_text = ''-'', translated_text = ''-'', shown = False \<rparr>,
       targetLanguage = ''es'', isConnected = True, observer = False, checkInterval = False,
       monitoringActive = False, lastTranslationTime = 0, wordBuffer = [],
       bufferTimeout = None, processedTexts = {}, skippedTexts = {}, isFirstCaption = True,
       lastSeenCaptionElement = None, timers = [], nextTimerId = 1, sendCalls = [],
       sendSeen = [], played = [] \<rparr>"

subsection \<open>Timers\<close>

text \<open>
  \<open>this.bufferTimeout = window.setTimeout(() => this.processWordBuffer(), 2000)\<close> at
  the time \<open>now\<close>, and \<open>clearTimeout(h)\<close>.
\<close>

definition setBufferTimeout :: "int \<Rightarrow> detector \<Rightarrow> detector" where
  "setBufferTimeout now s =
     s\<lparr> bufferTimeout := Some (nextTimerId s),
        timers := timers s @ [(nextTimerId s, now + 2000)],
        nextTimerId := Suc (nextTimerId s) \<rparr>"

definition clearTimeout :: "nat \<Rightarrow> detector \<Rightarrow> detector" where
  "clearTimeout h s = s\<lparr> timers := filter (\<lambda>(i, due). i \<noteq> h) (timers s) \<rparr>"

subsection \<open>Dispatch\<close>

text \<open>
  \<open>displayTranslation(data)\<close> writes the two spans and shows the overlay; without an
  overlay it returns at once. \<open>hideOverlay\<close> is what its ten-second timer runs.
\<close>

definition displayTranslation :: "translation \<Rightarrow> detector \<Rightarrow> detector" where
  "displayTranslation data s =
     (case translationOverlay s of
        None \<Rightarrow> s
      | Some ov \<Rightarrow>
          s\<lparr> translationOverlay :=
               Some (ov\<lparr> original_text := originalText data,
                         translated_text := translatedText data, shown := True \<rparr>) \<rparr>)"

definition hideOverlay :: "detector \<Rightarrow> detector" where
  "hideOverlay s =
     (case translationOverlay s of
        None \<Rightarrow> s
      | Some ov \<Rightarrow> s\<lparr> translationOverlay := Some (ov\<lparr> shown := False \<rparr>) \<rparr>)"

text \<open>
  \<open>sendForTranslation(text)\<close> is asynchronous. The call itself, which is all that its
  caller waits for, is \<open>sendForTranslation\<close>: it is recorded in \<open>sendCalls\<close>, and what
  the detector holds at that moment in \<open>sendSeen\<close>. The rest
  of the body runs when the request has ended, and is \<open>sendForTranslation_settled\<close>: the
  \<open>try\<close> block with its two branches on \<open>response.ok\<close>, and the \<open>catch\<close> block.
  \<open>x || d\<close> on a field is \<open>d\<close> when the field is absent or empty (or zero).
  \<open>isConnected\<close> is set by \<open>init()\<close> and never written again, so the test that opens
  the body reads the same value when the request ends as at the call. The voice id read
  from the storage goes into the body of the request only and is left out.
\<close>

definition sendForTranslation :: "string \<Rightarrow> detector \<Rightarrow> detector" where
  "sendForTranslation text s =
     s\<lparr> sendCalls := sendCalls s @ [text],
        sendSeen := sendSeen s @ [(text \<in> processedTexts s, lastTranslationTime s)] \<rparr>"

definition orElse :: "string option \<Rightarrow> string \<Rightarrow> string" where
  "orElse x d = (case x of None \<Rightarrow> d | Some v \<Rightarrow> if v = [] then d else v)"

definition sendForTranslation_settled :: "string \<Rightarrow> fetch_outcome \<Rightarrow> detector \<Rightarrow> detector" where
  "sendForTranslation_settled text outcome s =
     (if \<not> isConnected s then s
      else case outcome of
        Ok resOriginal resTranslated resConfidence resAudioLength \<Rightarrow>
          let s1 = displayTranslation
                     \<lparr> originalText = orElse resOriginal text,
                       translatedText = orElse resTranslated ''Translation failed'',
                       confidence = (case resConfidence of None \<Rightarrow> 0.8
                                     | Some c \<Rightarrow> if c = 0 then 0.8 else c) \<rparr> s
          in (case resTranslated of
                None \<Rightarrow> s1
              | Some tr \<Rightarrow>
                  if tr \<noteq> [] \<and> tr \<noteq> ''Translation failed''
                  then (case resAudioLength of
                          None \<Rightarrow> s1\<lparr> played := played s1 @ [TranslatedSpeech tr] \<rparr>
                        | Some n \<Rightarrow>
                            if n > 0 then s1\<lparr> played := played s1 @ [ElevenLabsAudio] \<rparr>
                            else s1\<lparr> played := played s1 @ [TranslatedSpeech tr] \<rparr>)
                  else s1)
      | NotOk \<Rightarrow>
          displayTranslation
            \<lparr> originalText = text, translatedText = ''[Translated: '' @ text @ '']'',
              confidence = 0.5 \<rparr> s
      | Rejected \<Rightarrow>
          displayTranslation
            \<lparr> originalText = text, translatedText = ''[Translation Error: '' @ text @ '']'',
              confidence = 0.3 \<rparr> s)"

subsection \<open>The word buffer\<close>

definition addToWordBuffer :: "int \<Rightarrow> string \<Rightarrow> detector \<Rightarrow> detector" where
  "addToWordBuffer now text s =
     (if text \<in> skippedTexts s then s
      else if text \<in> processedTexts s then s
      else
        let s1 = (if wordBuffer s \<noteq> [] then s\<lparr> wordBuffer := wordBuffer s @ '' '' @ text \<rparr>
                  else s\<lparr> wordBuffer := text \<rparr>);
            s2 = (case bufferTimeout s1 of Some h \<Rightarrow> clearTimeout h s1 | None \<Rightarrow> s1)
        in setBufferTimeout now s2)"

text \<open>\<open>processWordBuffer()\<close> run at the time \<open>now\<close> (the value of \<open>Date.now()\<close>).\<close>

definition processWordBuffer :: "int \<Rightarrow> detector \<Rightarrow> detector" where
  "processWordBuffer now s =
     (if length (trim (wordBuffer s)) > 0 then
        if wordBuffer s \<in> skippedTexts s then s\<lparr> wordBuffer := [] \<rparr>
        else if wordBuffer s \<in> processedTexts s then s\<lparr> wordBuffer := [] \<rparr>
        else if now - lastTranslationTime s < 2000 then setBufferTimeout now s
        else
          let s1 = s\<lparr> lastTranslationTime := now \<rparr>;
              s2 = s1\<lparr> processedTexts := insert (wordBuffer s1) (processedTexts s1) \<rparr>;
              s3 = sendForTranslation (wordBuffer s2) s2
          in s3\<lparr> wordBuffer := [] \<rparr>
      else s)"

subsection \<open>The observation pass\<close>

text \<open>
  \<open>checkForClosedCaptions()\<close> from the test \<open>if (captionContainer && foundText)\<close> on.
  \<open>located\<close> is what the selector search before it found: nothing, or an element and
  its text. The search returns a text only when it is trimmed, has at least three
  characters and passes \<open>isValidClosedCaption\<close> (it has a letter).
\<close>

definition checkForClosedCaptions :: "int \<Rightarrow> (nat \<times> string) option \<Rightarrow> detector \<Rightarrow> detector" where
  "checkForClosedCaptions now located s =
     (if \<not> monitoringActive s then s
      else case located of
        None \<Rightarrow> s
      | Some (captionContainer, foundText) \<Rightarrow>
          if foundText = [] then s
          else if isFirstCaption s
          then s\<lparr> lastProcessedText := foundText, isFirstCaption := False \<rparr>
          else if foundText \<in> skippedTexts s then s
          else if foundText \<noteq> lastProcessedText s then
            let isSameElement = (Some captionContainer = lastSeenCaptionElement s);
                s1 = (if isSameElement then
                        (if length foundText > length (lastProcessedText s) then
                           let newWords = extractNewWords (lastProcessedText s) foundText
                           in if newWords \<noteq> [] \<and> length (trim newWords) > 0
                              then addToWordBuffer now newWords
                                     (s\<lparr> lastProcessedText := foundText \<rparr>)
                              else s\<lparr> lastProcessedText := foundText \<rparr>
                         else s)
                      else addToWordBuffer now foundText (s\<lparr> lastProcessedText := foundText \<rparr>))
            in s1\<lparr> lastSeenCaptionElement := Some captionContainer \<rparr>
          else s)"

subsection \<open>Start and stop\<close>

text \<open>
  \<open>startCaptionDetection()\<close> ends with an immediate observation pass, whose search
  result is \<open>located\<close>.
\<close>

definition startCaptionDetection :: "int \<Rightarrow> (nat \<times> string) option \<Rightarrow> detector \<Rightarrow> detector" where
  "startCaptionDetection now located s =
     (if isMonitoring s then s
      else
        let s1 = s\<lparr> isMonitoring := True, monitoringActive := True, processedWords := {},
                    processedTexts := {}, skippedTexts := {}, isFirstCaption := True,
                    lastProcessedText := [], lastSeenCaptionElement := None \<rparr>;
            s2 = s1\<lparr> observer := True \<rparr>;
            s3 = s2\<lparr> checkInterval := True \<rparr>
        in checkForClosedCaptions now located s3)"

definition stopCaptionDetection :: "detector \<Rightarrow> detector" where
  "stopCaptionDetection s =
     (let s1 = s\<lparr> isMonitoring := False, monitoringActive := False \<rparr>;
          s2 = (if observer s1 then s1\<lparr> observer := False \<rparr> else s1);
          s3 = (if checkInterval s2 then s2\<lparr> checkInterval := False \<rparr> else s2);
          s4 = (case bufferTimeout s3 of
                  Some h \<Rightarrow> (clearTimeout h s3)\<lparr> bufferTimeout := None \<rparr>
                | None \<Rightarrow> s3)
      in s4\<lparr> wordBuffer := [], processedTexts := {}, skippedTexts := {},
             isFirstCaption := True \<rparr>)"

subsection \<open>The event loop\<close>

text \<open>
  The browser runs the callback of a pending timer once, at a time \<open>now\<close> not before
  the time it is due: \<open>timerFires h now\<close> does nothing for a handle that is not pending
  or not yet due. \<open>advance now\<close> runs every callback that is due at \<open>now\<close>; a timer set
  by one of them is due 2000 ms later and waits.
\<close>

definition timerFires :: "nat \<Rightarrow> int \<Rightarrow> detector \<Rightarrow> detector" where
  "timerFires h now s =
     (case map_of (timers s) h of
        None \<Rightarrow> s
      | Some due \<Rightarrow>
          if due \<le> now then processWordBuffer now (clearTimeout h s) else s)"

definition advance :: "int \<Rightarrow> detector \<Rightarrow> detector" where
  "advance now s = fold (\<lambda>h. timerFires h now) (map fst (timers s)) s"

text \<open>
  What happens to a detector: the two commands of the message listener; an observation
  pass (a tick of the 250 ms interval, the delayed callback of the mutation observer or
  \<open>testCaptionDetection\<close>) with the result of its search; the end of a request;
  the ten-second timer of the overlay; or nothing but the passing of time. Each event comes
  with its time, and the timers due by then run before it.
\<close>

datatype event =
    Start "(nat \<times> string) option"
  | Stop
  | Pass "(nat \<times> string) option"
  | Settled string fetch_outcome
  | HideOverlay
  | Idle

fun step :: "int \<times> event \<Rightarrow> detector \<Rightarrow> detector" where
  "step (now, Start located) s = startCaptionDetection now located (advance now s)"
| "step (now, Stop) s = stopCaptionDetection (advance now s)"
| "step (now, Pass located) s = checkForClosedCaptions now located (advance now s)"
| "step (now, Settled text outcome) s = sendForTranslation_settled text outcome (advance now s)"
| "step (now, HideOverlay) s = hideOverlay (advance now s)"
| "step (now, Idle) s = advance now s"

definition run :: "(int \<times> event) list \<Rightarrow> detector \<Rightarrow> detector" where
  "run evs s = fold step evs s"

text \<open>
  At most one buffer timer is pending, and \<open>bufferTimeout\<close> holds its handle.
\<close>

definition timer_inv :: "detector \<Rightarrow> bool" where
  "timer_inv s =
     (case timers s of
        [] \<Rightarrow> True
      | [(h, due)] \<Rightarrow> bufferTimeout s = Some h
      | _ \<Rightarrow> False)"

text \<open>The events of a list that are not the stop command.\<close>

definition no_stop :: "(int \<times> event) list \<Rightarrow> bool" where
  "no_stop evs = list_all (\<lambda>(now, ev). ev \<noteq> Stop) evs"

text \<open>
  \<open>guarded T s s'\<close>: from \<open>s\<close> to \<open>s'\<close> the session has stayed as it was started or
  stopped, the first-caption flag has not been raised, and if \<open>T\<close> was in one of the two
  sets of \<open>s\<close> it still is in \<open>s'\<close> and no call of the dispatch function made in between
  carries \<open>T\<close>.
\<close>

definition guarded :: "string \<Rightarrow> detector \<Rightarrow> detector \<Rightarrow> bool" where
  "guarded T s s' =
     (isMonitoring s' = isMonitoring s \<and> (isFirstCaption s' \<longrightarrow> isFirstCaption s) \<and>
      (T \<in> processedTexts s \<union> skippedTexts s \<longrightarrow>
         T \<in> processedTexts s' \<union> skippedTexts s' \<and>
         (\<exists>new. sendCalls s' = sendCalls s @ new \<and> T \<notin> set new)))"

subsection \<open>Example sessions\<close>

text \<open>
  A session in which two new turns, \<open>Good\<close> and \<open>morning\<close>, are buffered within the
  debounce delay and dispatched as one text; and its continuation, in which the same two
  turns are seen again on new elements and flushed again.
\<close>

definition first_session :: "(int \<times> event) list" where
  "first_session =
     [(1000000, Start None), (1000250, Pass (Some (7, ''Hello''))),
      (1000500, Pass (Some (8, ''Good''))), (1000750, Pass (Some (9, ''morning''))),
      (1002750, Idle)]"

definition repeat_session :: "(int \<times> event) list" where
  "repeat_session =
     [(1005000, Pass (Some (10, ''Good''))), (1005250, Pass (Some (11, ''morning''))),
      (1007250, Idle), (1007500, Start None), (1009500, Idle)]"

text \<open>
  A fresh session whose first caption is \<open>Hello\<close> on the element 7 and whose next caption
  is \<open>Hello there\<close> on the same element, followed by silence; and a session whose baseline
  \<open>Hey\<close> on the element 7 is followed by a caption \<open>Hello there\<close> on the element 8. Every
  text of the examples is one that the selector search can return: trimmed, of at least
  three characters, with a letter.
\<close>

definition hello_session :: "(int \<times> event) list" where
  "hello_session =
     [(1000000, Start None), (1000250, Pass (Some (7, ''Hello''))),
      (1000500, Pass (Some (7, ''Hello there''))), (1002500, Idle)]"

definition shorter_session :: "(int \<times> event) list" where
  "shorter_session =
     [(1000000, Start None), (1000250, Pass (Some (7, ''Hey''))),
      (1000500, Pass (Some (8, ''Hello there'')))]"

section \<open>The differ\<close>

text \<open>
  C10: with an empty previous text the differ returns the current text as it is, neither
  trimmed nor filtered by the two-character minimum.
\<close>

theorem extractNewWords_empty_previous: "extractNewWords [] t = t"
  by (simp add: extractNewWords_def)

text \<open>
  C3: for a non-empty previous text the differ is the differ of the specification: empty
  unless the normalised current text is strictly longer than the normalised previous text
  and has it as a prefix, and otherwise the trimmed rest of the original current text from
  the length of the original previous text on, if that has at least two characters. On
  \<open>Hello wor\<close> and \<open>Hello world now\<close> it returns \<open>ld now\<close>.
\<close>

theorem extractNewWords_refines_spec:
  "(previousText \<noteq> [] \<longrightarrow>
      extractNewWords previousText currentText = diff_spec previousText currentText) \<and>
   extractNewWords ''Hello wor'' ''Hello world now'' = ''ld now''"
proof
  show "previousText \<noteq> [] \<longrightarrow>
      extractNewWords previousText currentText = diff_spec previousText currentText"
    by (auto simp: extractNewWords_def diff_spec_def Let_def)
  show "extractNewWords ''Hello wor'' ''Hello world now'' = ''ld now''"
    by code_simp
qed

theorem extractNewWords_refines_spec_witness:
  "''Hello, World'' \<noteq> [] \<and>
   extractNewWords ''Hello, World'' ''hello world again! '' = ''again!'' \<and>
   diff_spec ''Hello, World'' ''hello world again! '' = ''again!''"
proof -
  have d: "diff_spec ''Hello, World'' ''hello world again! '' = ''again!''"
    by code_simp
  show ?thesis
    using extractNewWords_refines_spec [of "''Hello, World''" "''hello world again! ''"] d
    by simp
qed

section \<open>What the operations leave alone\<close>

text \<open>
  The fields that each operation does not write, for the proofs about sessions: the
  observation pass and the word buffer never touch the two sets or the dispatch record,
  and the end of a request touches the overlay only.
\<close>

lemma clearTimeout_frame [simp]:
  "isMonitoring (clearTimeout h s) = isMonitoring s"
  "monitoringActive (clearTimeout h s) = monitoringActive s"
  "processedTexts (clearTimeout h s) = processedTexts s"
  "skippedTexts (clearTimeout h s) = skippedTexts s"
  "sendCalls (clearTimeout h s) = sendCalls s"
  "isFirstCaption (clearTimeout h s) = isFirstCaption s"
  "wordBuffer (clearTimeout h s) = wordBuffer s"
  "lastTranslationTime (clearTimeout h s) = lastTranslationTime s"
  "bufferTimeout (clearTimeout h s) = bufferTimeout s"
  by (simp_all add: clearTimeout_def)

lemma addToWordBuffer_frame [simp]:
  "isMonitoring (addToWordBuffer now fragment s) = isMonitoring s"
  "monitoringActive (addToWordBuffer now fragment s) = monitoringActive s"
  "processedTexts (addToWordBuffer now fragment s) = processedTexts s"
  "skippedTexts (addToWordBuffer now fragment s) = skippedTexts s"
  "sendCalls (addToWordBuffer now fragment s) = sendCalls s"
  "isFirstCaption (addToWordBuffer now fragment s) = isFirstCaption s"
  "lastProcessedText (addToWordBuffer now fragment s) = lastProcessedText s"
  "lastSeenCaptionElement (addToWordBuffer now fragment s) = lastSeenCaptionElement s"
  "lastTranslationTime (addToWordBuffer now fragment s) = lastTranslationTime s"
  by (simp_all add: addToWordBuffer_def setBufferTimeout_def clearTimeout_def Let_def
        split: option.splits)

lemma checkForClosedCaptions_frame [simp]:
  "isMonitoring (checkForClosedCaptions now located s) = isMonitoring s"
  "monitoringActive (checkForClosedCaptions now located s) = monitoringActive s"
  "processedTexts (checkForClosedCaptions now located s) = processedTexts s"
  "skippedTexts (checkForClosedCaptions now located s) = skippedTexts s"
  "sendCalls (checkForClosedCaptions now located s) = sendCalls s"
  "lastTranslationTime (checkForClosedCaptions now located s) = lastTranslationTime s"
  by (simp_all add: checkForClosedCaptions_def Let_def split: option.splits prod.splits)

lemma sendForTranslation_settled_frame [simp]:
  "isMonitoring (sendForTranslation_settled sent outcome s) = isMonitoring s"
  "monitoringActive (sendForTranslation_settled sent outcome s) = monitoringActive s"
  "processedTexts (sendForTranslation_settled sent outcome s) = processedTexts s"
  "skippedTexts (sendForTranslation_settled sent outcome s) = skippedTexts s"
  "sendCalls (sendForTranslation_settled sent outcome s) = sendCalls s"
  "isFirstCaption (sendForTranslation_settled sent outcome s) = isFirstCaption s"
  "timers (sendForTranslation_settled sent outcome s) = timers s"
  "bufferTimeout (sendForTranslation_settled sent outcome s) = bufferTimeout s"
  "wordBuffer (sendForTranslation_settled sent outcome s) = wordBuffer s"
  "lastTranslationTime (sendForTranslation_settled sent outcome s) = lastTranslationTime s"
  by (simp_all add: sendForTranslation_settled_def displayTranslation_def Let_def
        split: option.splits fetch_outcome.splits)

lemma hideOverlay_frame [simp]:
  "isMonitoring (hideOverlay s) = isMonitoring s"
  "processedTexts (hideOverlay s) = processedTexts s"
  "skippedTexts (hideOverlay s) = skippedTexts s"
  "sendCalls (hideOverlay s) = sendCalls s"
  "isFirstCaption (hideOverlay s) = isFirstCaption s"
  "timers (hideOverlay s) = timers s"
  "bufferTimeout (hideOverlay s) = bufferTimeout s"
  by (simp_all add: hideOverlay_def split: option.splits)

lemma processWordBuffer_frame [simp]:
  "isMonitoring (processWordBuffer now s) = isMonitoring s"
  "monitoringActive (processWordBuffer now s) = monitoringActive s"
  "skippedTexts (processWordBuffer now s) = skippedTexts s"
  "isFirstCaption (processWordBuffer now s) = isFirstCaption s"
  by (simp_all add: processWordBuffer_def setBufferTimeout_def sendForTranslation_def Let_def)

section \<open>The dispatch record over a session\<close>

text \<open>
  Every operation that an event other than the stop command runs is \<open>guarded\<close>, and so
  is every run of such events from a state of a running session.
\<close>

lemma guarded_refl: "guarded T s s"
  by (simp add: guarded_def)

lemma guarded_trans: "guarded T s s' \<Longrightarrow> guarded T s' s'' \<Longrightarrow> guarded T s s''"
  by (auto simp: guarded_def)

lemma guarded_processWordBuffer: "guarded T s (processWordBuffer now s)"
  by (auto simp: guarded_def processWordBuffer_def setBufferTimeout_def
        sendForTranslation_def Let_def)

lemma guarded_timerFires: "guarded T s (timerFires h now s)"
proof -
  have "guarded T s (clearTimeout h s)" by (simp add: guarded_def)
  then have "guarded T s (processWordBuffer now (clearTimeout h s))"
    using guarded_processWordBuffer guarded_trans by blast
  then show ?thesis
    by (simp add: timerFires_def guarded_refl split: option.splits)
qed

lemma guarded_fold_timerFires: "guarded T s (fold (\<lambda>h. timerFires h now) hs s)"
proof (induction hs arbitrary: s)
  case Nil
  show ?case by (simp add: guarded_refl)
next
  case (Cons h hs)
  show ?case
    using guarded_timerFires [of T s h now] Cons.IH [of "timerFires h now s"]
    by (simp add: guarded_trans)
qed

lemma guarded_advance: "guarded T s (advance now s)"
  by (simp add: advance_def guarded_fold_timerFires)

lemma guarded_checkForClosedCaptions: "guarded T s (checkForClosedCaptions now located s)"
proof -
  have "isFirstCaption (checkForClosedCaptions now located s) \<longrightarrow> isFirstCaption s"
    by (simp add: checkForClosedCaptions_def Let_def split: option.splits prod.splits)
  then show ?thesis by (simp add: guarded_def)
qed

lemma guarded_settled: "guarded T s (sendForTranslation_settled sent outcome s)"
  by (simp add: guarded_def)

lemma guarded_step:
  assumes "isMonitoring s" and "ev \<noteq> Stop"
  shows "guarded T s (step (now, ev) s)"
proof -
  have adv: "guarded T s (advance now s)" by (rule guarded_advance)
  then have mon: "isMonitoring (advance now s)" using assms(1) by (simp add: guarded_def)
  show ?thesis
  proof (cases ev)
    case (Start located)
    then show ?thesis using adv mon by (simp add: startCaptionDetection_def)
  next
    case Stop
    then show ?thesis using assms(2) by simp
  next
    case (Pass located)
    then show ?thesis
      using adv guarded_checkForClosedCaptions guarded_trans by (metis step.simps(3))
  next
    case (Settled sent outcome)
    then show ?thesis
      using adv guarded_settled guarded_trans by (metis step.simps(4))
  next
    case HideOverlay
    have "guarded T (advance now s) (hideOverlay (advance now s))"
      by (simp add: guarded_def)
    with adv show ?thesis
      using HideOverlay guarded_trans by (metis step.simps(5))
  next
    case Idle
    then show ?thesis using adv by simp
  qed
qed

lemma guarded_run:
  assumes "isMonitoring s" and "no_stop evs"
  shows "guarded T s (run evs s)"
  using assms
proof (induction evs arbitrary: s)
  case Nil
  show ?case by (simp add: run_def guarded_refl)
next
  case (Cons e evs)
  obtain now ev where e: "e = (now, ev)" by (cases e)
  from Cons.prems e have ns: "ev \<noteq> Stop" and rest: "no_stop evs"
    by (simp_all add: no_stop_def)
  have g1: "guarded T s (step (now, ev) s)"
    using Cons.prems(1) ns by (rule guarded_step)
  then have "isMonitoring (step (now, ev) s)"
    using Cons.prems(1) by (simp add: guarded_def)
  then have "guarded T (step (now, ev) s) (run evs (step (now, ev) s))"
    using rest by (rule Cons.IH)
  with g1 have "guarded T s (run evs (step (now, ev) s))"
    by (rule guarded_trans)
  then show ?case by (simp add: run_def e)
qed

text \<open>
  C1: in a running session, from a state in which the text \<open>T\<close> is in \<open>processedTexts\<close> or
  in \<open>skippedTexts\<close>, no sequence of events without the stop command (observation passes,
  timer expiries, ends of requests, repeated start commands) makes a call of
  \<open>sendForTranslation\<close> with \<open>T\<close>: the calls made so far stay, and none of the later ones
  carries \<open>T\<close>.
\<close>

theorem no_redispatch:
  assumes "isMonitoring s" and "no_stop evs"
    and "T \<in> processedTexts s \<union> skippedTexts s"
  shows "prefix (sendCalls s) (sendCalls (run evs s)) \<and>
         T \<notin> set (drop (length (sendCalls s)) (sendCalls (run evs s)))"
proof -
  have "guarded T s (run evs s)"
    using assms(1,2) by (rule guarded_run)
  with assms(3) obtain new
    where "sendCalls (run evs s) = sendCalls s @ new" and "T \<notin> set new"
    by (auto simp: guarded_def)
  then show ?thesis by simp
qed

theorem no_redispatch_witness:
  "isMonitoring (run first_session new_detector) \<and> no_stop repeat_session \<and>
   ''Good morning'' \<in> processedTexts (run first_session new_detector) \<and>
   sendCalls (run first_session new_detector) = [''Good morning''] \<and>
   wordBuffer (run (take 2 repeat_session) (run first_session new_detector)) = ''Good morning'' \<and>
   ''Good morning'' \<notin> set (drop 1 (sendCalls (run repeat_session (run first_session new_detector))))"
proof -
  have h1: "isMonitoring (run first_session new_detector)" by code_simp
  have h2: "no_stop repeat_session" by code_simp
  have h3: "''Good morning'' \<in> processedTexts (run first_session new_detector)" by code_simp
  have c: "sendCalls (run first_session new_detector) = [''Good morning'']" by code_simp
  have b: "wordBuffer (run (take 2 repeat_session) (run first_session new_detector))
             = ''Good morning''" by code_simp
  show ?thesis
    using no_redispatch [of "run first_session new_detector" repeat_session "''Good morning''"]
      h1 h2 h3 c b
    by simp
qed

section \<open>The baseline\<close>

text \<open>
  C6: in a session just started (\<open>s\<close>, with no caption found by the pass that ends the
  start command) the first-caption flag is up, and a pass that finds no caption leaves the
  session as it is. The first pass that finds a caption, with text \<open>T\<close>, only records
  \<open>T\<close> as the last text and lowers the flag: it makes no call of the dispatch function,
  leaves the word buffer and the pending timers alone, and the start command does the same
  when its own pass finds the caption. Seeing \<open>T\<close> again right after changes nothing, and
  the flag stays down for every sequence of events without the stop command.
\<close>

theorem baseline_suppression:
  assumes idle: "\<not> isMonitoring s0" and nonempty: "T \<noteq> []" and later: "no_stop later"
    and s: "s = startCaptionDetection t0 None s0"
    and b: "b = checkForClosedCaptions now (Some (e, T)) s"
  shows "isMonitoring s \<and> monitoringActive s \<and> isFirstCaption s \<and>
         checkForClosedCaptions now None s = s \<and>
         b = s\<lparr> lastProcessedText := T, isFirstCaption := False \<rparr> \<and>
         startCaptionDetection t0 (Some (e, T)) s0
           = s\<lparr> lastProcessedText := T, isFirstCaption := False \<rparr> \<and>
         sendCalls b = sendCalls s0 \<and> wordBuffer b = wordBuffer s0 \<and> timers b = timers s0 \<and>
         checkForClosedCaptions now' (Some (e', T)) b = b \<and>
         \<not> isFirstCaption (run later b)"
proof -
  have s_eq: "s = s0\<lparr> isMonitoring := True, monitoringActive := True, processedWords := {},
                    processedTexts := {}, skippedTexts := {}, isFirstCaption := True,
                    lastProcessedText := [], lastSeenCaptionElement := None,
                    observer := True, checkInterval := True \<rparr>"
    using idle by (simp add: s startCaptionDetection_def checkForClosedCaptions_def)
  have flags: "isMonitoring s \<and> monitoringActive s \<and> isFirstCaption s"
    by (simp add: s_eq)
  have none: "checkForClosedCaptions now None s = s"
    by (simp add: checkForClosedCaptions_def)
  have b_eq: "b = s\<lparr> lastProcessedText := T, isFirstCaption := False \<rparr>"
    using flags nonempty by (simp add: b checkForClosedCaptions_def)
  have start: "startCaptionDetection t0 (Some (e, T)) s0
                 = s\<lparr> lastProcessedText := T, isFirstCaption := False \<rparr>"
    using idle nonempty by (simp add: s_eq startCaptionDetection_def checkForClosedCaptions_def)
  have quiet: "sendCalls b = sendCalls s0 \<and> wordBuffer b = wordBuffer s0 \<and> timers b = timers s0"
    by (simp add: b_eq s_eq)
  have again: "checkForClosedCaptions now' (Some (e', T)) b = b"
    by (simp add: b_eq checkForClosedCaptions_def)
  have "isMonitoring b" and "\<not> isFirstCaption b"
    using flags by (simp_all add: b_eq)
  moreover have "guarded T b (run later b)"
    using \<open>isMonitoring b\<close> later by (rule guarded_run)
  ultimately have "\<not> isFirstCaption (run later b)"
    by (simp add: guarded_def)
  with flags none b_eq start quiet again show ?thesis by blast
qed

theorem baseline_suppression_witness:
  "\<not> isMonitoring new_detector \<and> ''Hello'' \<noteq> [] \<and> no_stop (drop 2 hello_session) \<and>
   isFirstCaption (startCaptionDetection 1000000 None new_detector) \<and>
   sendCalls (checkForClosedCaptions 1000250 (Some (7, ''Hello''))
                (startCaptionDetection 1000000 None new_detector)) = sendCalls new_detector \<and>
   wordBuffer (checkForClosedCaptions 1000250 (Some (7, ''Hello''))
                (startCaptionDetection 1000000 None new_detector)) = wordBuffer new_detector \<and>
   sendCalls new_detector = [] \<and> wordBuffer new_detector = [] \<and>
   \<not> isFirstCaption (run (drop 2 hello_session)
        (checkForClosedCaptions 1000250 (Some (7, ''Hello''))
           (startCaptionDetection 1000000 None new_detector)))"
proof -
  have h1: "\<not> isMonitoring new_detector" by (simp add: new_detector_def)
  have h2: "''Hello'' \<noteq> []" by simp
  have h3: "no_stop (drop 2 hello_session)" by code_simp
  have c: "sendCalls new_detector = [] \<and> wordBuffer new_detector = []"
    by (simp add: new_detector_def)
  show ?thesis
    using baseline_suppression [OF h1 h2 h3 refl refl, of 1000000 1000250 7 0 0] h1 h2 h3 c
    by blast
qed

text \<open>
  C2: what the code does on the scenario of the claim. After the baseline pass the last
  text is \<open>Hello\<close> but no element is recorded as last seen, so the pass that finds
  \<open>Hello there\<close> on the same element takes the branch of a new speaker: the whole text
  \<open>Hello there\<close> is buffered, not the difference \<open>there\<close> that the differ gives for the
  two texts, and the one call of the dispatch function after the debounce delay carries
  \<open>Hello there\<close>.
\<close>

theorem baseline_element_not_recorded:
  "lastProcessedText (run (take 2 hello_session) new_detector) = ''Hello'' \<and>
   lastSeenCaptionElement (run (take 2 hello_session) new_detector) = None \<and>
   extractNewWords ''Hello'' ''Hello there'' = ''there'' \<and>
   wordBuffer (run (take 3 hello_session) new_detector) = ''Hello there'' \<and>
   sendCalls (run hello_session new_detector) = [''Hello there'']"
  by code_simp

section \<open>Continuation or new turn\<close>

lemma wordBuffer_addToWordBuffer:
  "wordBuffer (addToWordBuffer now fragment s) =
     (if fragment \<in> skippedTexts s \<or> fragment \<in> processedTexts s then wordBuffer s
      else if wordBuffer s = [] then fragment
      else wordBuffer s @ '' '' @ fragment)"
  by (simp add: addToWordBuffer_def setBufferTimeout_def clearTimeout_def Let_def
        split: option.splits)

text \<open>
  C4, as the code has it. In a pass with the baseline established that finds a text
  \<open>foundText\<close>, not in \<open>skippedTexts\<close> and different from the last text, on the element
  \<open>e\<close>:
  \<^item> if \<open>e\<close> is the last seen element and the text is strictly longer than the last text,
    the pass is a continuation: the difference \<open>d\<close> that \<open>extractNewWords\<close> gives is
    appended to the word buffer, unless it is blank or already in one of the two sets, and
    the last text becomes \<open>foundText\<close>;
  \<^item> if \<open>e\<close> is the last seen element and the text is not strictly longer, the pass
    changes nothing: nothing is buffered and the last text stays;
  \<^item> if \<open>e\<close> is not the last seen element, the pass is a new turn: the whole text is
    appended to the word buffer, unless it is already in \<open>processedTexts\<close>, and the last
    text becomes \<open>foundText\<close>.
  In each case \<open>e\<close> is the last seen element afterwards.
\<close>

theorem observation_classes:
  assumes "monitoringActive s" and "\<not> isFirstCaption s"
    and "foundText \<noteq> []" and "foundText \<notin> skippedTexts s"
    and "foundText \<noteq> lastProcessedText s"
    and "s' = checkForClosedCaptions now (Some (e, foundText)) s"
    and "d = extractNewWords (lastProcessedText s) foundText"
  shows
    "(lastSeenCaptionElement s = Some e \<and> length (lastProcessedText s) < length foundText \<longrightarrow>
        wordBuffer s' =
          (if d = [] \<or> trim d = [] \<or> d \<in> skippedTexts s \<or> d \<in> processedTexts s
           then wordBuffer s
           else if wordBuffer s = [] then d else wordBuffer s @ '' '' @ d) \<and>
        lastProcessedText s' = foundText) \<and>
     (lastSeenCaptionElement s = Some e \<and> \<not> length (lastProcessedText s) < length foundText \<longrightarrow>
        s' = s) \<and>
     (lastSeenCaptionElement s \<noteq> Some e \<longrightarrow>
        wordBuffer s' =
          (if foundText \<in> processedTexts s then wordBuffer s
           else if wordBuffer s = [] then foundText
           else wordBuffer s @ '' '' @ foundText) \<and>
        lastProcessedText s' = foundText) \<and>
     lastSeenCaptionElement s' = Some e"
proof -
  have same_long:
    "lastSeenCaptionElement s = Some e \<and> length (lastProcessedText s) < length foundText \<longrightarrow>
        wordBuffer s' =
          (if d = [] \<or> trim d = [] \<or> d \<in> skippedTexts s \<or> d \<in> processedTexts s
           then wordBuffer s
           else if wordBuffer s = [] then d else wordBuffer s @ '' '' @ d) \<and>
        lastProcessedText s' = foundText"
    using assms
    by (simp add: checkForClosedCaptions_def Let_def wordBuffer_addToWordBuffer)
  have same_short:
    "lastSeenCaptionElement s = Some e \<and> \<not> length (lastProcessedText s) < length foundText \<longrightarrow>
        s' = s"
    using assms by (simp add: checkForClosedCaptions_def Let_def)
  have other: "lastSeenCaptionElement s \<noteq> Some e \<longrightarrow>
        wordBuffer s' =
          (if foundText \<in> processedTexts s then wordBuffer s
           else if wordBuffer s = [] then foundText
           else wordBuffer s @ '' '' @ foundText) \<and>
        lastProcessedText s' = foundText"
    using assms
    by (auto simp: checkForClosedCaptions_def Let_def wordBuffer_addToWordBuffer)
  have seen: "lastSeenCaptionElement s' = Some e"
    using assms by (simp add: checkForClosedCaptions_def Let_def)
  from same_long same_short other seen show ?thesis by blast
qed

theorem observation_classes_witness:
  "monitoringActive (run shorter_session new_detector) \<and>
   \<not> isFirstCaption (run shorter_session new_detector) \<and>
   lastSeenCaptionElement (run shorter_session new_detector) = Some 8 \<and>
   lastProcessedText (run shorter_session new_detector) = ''Hello there'' \<and>
   wordBuffer (run shorter_session new_detector) = ''Hello there'' \<and>
   wordBuffer (checkForClosedCaptions 1000750 (Some (8, ''Hello there friend''))
      (run shorter_session new_detector)) = ''Hello there friend'' \<and>
   checkForClosedCaptions 1000750 (Some (8, ''Hello''))
      (run shorter_session new_detector) = run shorter_session new_detector \<and>
   wordBuffer (checkForClosedCaptions 1000750 (Some (9, ''Bye now''))
      (run shorter_session new_detector)) = ''Hello there Bye now''"
proof -
  let ?s = "run shorter_session new_detector"
  have h1: "monitoringActive ?s" by code_simp
  have h2: "\<not> isFirstCaption ?s" by code_simp
  have h4: "''Hello there friend'' \<notin> skippedTexts ?s" "''Hello'' \<notin> skippedTexts ?s"
    "''Bye now'' \<notin> skippedTexts ?s" by code_simp+
  have h5: "''Hello there friend'' \<noteq> lastProcessedText ?s" "''Hello'' \<noteq> lastProcessedText ?s"
    "''Bye now'' \<noteq> lastProcessedText ?s" by code_simp+
  have seen: "lastSeenCaptionElement ?s = Some 8" by code_simp
  have last: "lastProcessedText ?s = ''Hello there''" by code_simp
  have buf: "wordBuffer ?s = ''Hello there''" by code_simp
  have none: "processedTexts ?s = {}" "skippedTexts ?s = {}" by code_simp+
  have d: "extractNewWords ''Hello there'' ''Hello there friend'' = ''friend''"
    "trim ''friend'' = ''friend''" by code_simp+
  have continuation:
    "wordBuffer (checkForClosedCaptions 1000750 (Some (8, ''Hello there friend'')) ?s)
       = ''Hello there friend''"
    using observation_classes [OF h1 h2 _ h4(1) h5(1) refl refl, where now = 1000750 and e = 8]
    by (simp add: seen last buf none d)
  have ignored: "checkForClosedCaptions 1000750 (Some (8, ''Hello'')) ?s = ?s"
    using observation_classes [OF h1 h2 _ h4(2) h5(2) refl refl, where now = 1000750 and e = 8]
    by (simp add: seen last)
  have new_turn:
    "wordBuffer (checkForClosedCaptions 1000750 (Some (9, ''Bye now'')) ?s)
       = ''Hello there Bye now''"
    using observation_classes [OF h1 h2 _ h4(3) h5(3) refl refl, where now = 1000750 and e = 9]
    by (simp add: seen last buf none)
  from h1 h2 seen last buf continuation ignored new_turn show ?thesis by blast
qed

text \<open>
  The claim as stated fails on the same element with a text that is not strictly longer:
  after \<open>Hello there\<close> on the element 8, the text \<open>Hello\<close> on the element 8 is not
  buffered, and the word buffer stays \<open>Hello there\<close>.
\<close>

theorem same_element_not_longer_counterexample:
  "monitoringActive (run shorter_session new_detector) \<and>
   \<not> isFirstCaption (run shorter_session new_detector) \<and>
   ''Hello'' \<notin> skippedTexts (run shorter_session new_detector) \<and>
   ''Hello'' \<notin> processedTexts (run shorter_session new_detector) \<and>
   ''Hello'' \<noteq> lastProcessedText (run shorter_session new_detector) \<and>
   lastSeenCaptionElement (run shorter_session new_detector) = Some 8 \<and>
   wordBuffer (run shorter_session new_detector) = ''Hello there'' \<and>
   wordBuffer (checkForClosedCaptions 1000750 (Some (8, ''Hello''))
      (run shorter_session new_detector)) = ''Hello there'' \<and>
   wordBuffer (checkForClosedCaptions 1000750 (Some (8, ''Hello''))
      (run shorter_session new_detector)) \<noteq> ''Hello there Hello''"
  by code_simp

section \<open>The pending timer\<close>

text \<open>
  A text is blank exactly when \<open>trim\<close> empties it. The invariant \<open>timer_inv\<close> holds of
  the new detector and is kept by every event, so it holds throughout every run: an append
  cancels the one pending timer before it sets its own, and a flush sets a timer only after
  the timer that ran it is gone.
\<close>

lemma trim_eq_Nil: "trim x = [] \<longleftrightarrow> (\<forall>c \<in> set x. isWhiteSpace c)"
proof
  assume "trim x = []"
  then have "dropWhile isWhiteSpace (rev (dropWhile isWhiteSpace x)) = []"
    by (simp add: trim_def)
  then have all: "\<forall>c \<in> set (dropWhile isWhiteSpace x). isWhiteSpace c"
    by (metis dropWhile_eq_Nil_conv set_rev)
  have "dropWhile isWhiteSpace x = []"
  proof (rule ccontr)
    assume ne: "dropWhile isWhiteSpace x \<noteq> []"
    then have "\<not> isWhiteSpace (hd (dropWhile isWhiteSpace x))" by (rule hd_dropWhile)
    moreover have "hd (dropWhile isWhiteSpace x) \<in> set (dropWhile isWhiteSpace x)"
      using ne by simp
    ultimately show False using all by blast
  qed
  then show "\<forall>c \<in> set x. isWhiteSpace c" by (metis dropWhile_eq_Nil_conv)
next
  assume "\<forall>c \<in> set x. isWhiteSpace c"
  then have e: "dropWhile isWhiteSpace x = []" by (metis dropWhile_eq_Nil_conv)
  show "trim x = []" unfolding trim_def e by simp
qed

lemma trim_append_nonblank: "trim x \<noteq> [] \<Longrightarrow> trim (x @ y) \<noteq> []"
  by (auto simp: trim_eq_Nil)

lemma timer_inv_cases:
  "timer_inv s \<longleftrightarrow> timers s = [] \<or> (\<exists>h due. timers s = [(h, due)] \<and> bufferTimeout s = Some h)"
  by (auto simp: timer_inv_def split: list.splits)

lemma addToWordBuffer_appends:
  assumes "fragment \<notin> skippedTexts s" and "fragment \<notin> processedTexts s" and "timer_inv s"
  shows "addToWordBuffer now fragment s =
           s\<lparr> wordBuffer := (if wordBuffer s = [] then fragment
                             else wordBuffer s @ '' '' @ fragment),
              bufferTimeout := Some (nextTimerId s),
              timers := [(nextTimerId s, now + 2000)],
              nextTimerId := Suc (nextTimerId s) \<rparr>"
  using assms
  by (auto simp: timer_inv_cases addToWordBuffer_def setBufferTimeout_def clearTimeout_def Let_def
        split: option.splits)

lemma addToWordBuffer_drops:
  "fragment \<in> skippedTexts s \<or> fragment \<in> processedTexts s \<Longrightarrow>
     addToWordBuffer now fragment s = s"
  by (auto simp: addToWordBuffer_def)

lemma advance_no_timer: "timers s = [] \<Longrightarrow> advance now s = s"
  by (simp add: advance_def)

lemma advance_one_timer:
  "timers s = [(h, due)] \<Longrightarrow>
     advance now s = (if due \<le> now then processWordBuffer now (s\<lparr> timers := [] \<rparr>) else s)"
  by (simp add: advance_def timerFires_def clearTimeout_def)

lemma timer_inv_processWordBuffer:
  "timers s = [] \<Longrightarrow> timer_inv (processWordBuffer now s)"
  by (simp add: processWordBuffer_def setBufferTimeout_def sendForTranslation_def Let_def
        timer_inv_def)

lemma timer_inv_advance: "timer_inv s \<Longrightarrow> timer_inv (advance now s)"
  by (auto simp: timer_inv_cases [of s] advance_no_timer advance_one_timer
        timer_inv_processWordBuffer)

lemma timer_inv_addToWordBuffer: "timer_inv s \<Longrightarrow> timer_inv (addToWordBuffer now fragment s)"
proof (cases "fragment \<in> skippedTexts s \<or> fragment \<in> processedTexts s")
  case True
  assume "timer_inv s"
  with True show ?thesis by (simp add: addToWordBuffer_drops)
next
  case False
  assume "timer_inv s"
  with False show ?thesis by (simp add: addToWordBuffer_appends timer_inv_def)
qed

lemma timer_inv_same:
  "timers s' = timers s \<Longrightarrow> bufferTimeout s' = bufferTimeout s \<Longrightarrow> timer_inv s' = timer_inv s"
  by (simp add: timer_inv_cases)

lemma timer_inv_update [simp]:
  "timer_inv (s\<lparr> lastProcessedText := x \<rparr>) = timer_inv s"
  "timer_inv (s\<lparr> lastSeenCaptionElement := y \<rparr>) = timer_inv s"
  "timer_inv (s\<lparr> isFirstCaption := z \<rparr>) = timer_inv s"
  by (rule timer_inv_same; simp)+

lemma timer_inv_checkForClosedCaptions:
  "timer_inv s \<Longrightarrow> timer_inv (checkForClosedCaptions now located s)"
  by (simp add: checkForClosedCaptions_def Let_def timer_inv_addToWordBuffer
        split: option.splits prod.splits)

lemma timers_stopCaptionDetection: "timer_inv s \<Longrightarrow> timers (stopCaptionDetection s) = []"
  by (auto simp: timer_inv_cases stopCaptionDetection_def clearTimeout_def Let_def
        split: option.splits)

lemma timer_inv_stopCaptionDetection: "timer_inv s \<Longrightarrow> timer_inv (stopCaptionDetection s)"
  by (simp add: timer_inv_def timers_stopCaptionDetection)

lemma timer_inv_startCaptionDetection:
  "timer_inv s \<Longrightarrow> timer_inv (startCaptionDetection now located s)"
proof -
  assume inv: "timer_inv s"
  have "timer_inv (s\<lparr> isMonitoring := True, monitoringActive := True, processedWords := {},
                    processedTexts := {}, skippedTexts := {}, isFirstCaption := True,
                    lastProcessedText := [], lastSeenCaptionElement := None,
                    observer := True, checkInterval := True \<rparr>)"
    using inv timer_inv_same [of "s\<lparr> isMonitoring := True, monitoringActive := True, processedWords := {},
                    processedTexts := {}, skippedTexts := {}, isFirstCaption := True,
                    lastProcessedText := [], lastSeenCaptionElement := None,
                    observer := True, checkInterval := True \<rparr>" s] by simp
  then show ?thesis
    using inv by (simp add: startCaptionDetection_def Let_def timer_inv_checkForClosedCaptions)
qed

lemma timer_inv_settled:
  "timer_inv s \<Longrightarrow> timer_inv (sendForTranslation_settled sent outcome s)"
  using timer_inv_same [of "sendForTranslation_settled sent outcome s" s] by simp

lemma timer_inv_hideOverlay: "timer_inv s \<Longrightarrow> timer_inv (hideOverlay s)"
  using timer_inv_same [of "hideOverlay s" s] by simp

lemma timer_inv_step: "timer_inv s \<Longrightarrow> timer_inv (step e s)"
proof -
  assume inv: "timer_inv s"
  obtain now ev where e: "e = (now, ev)" by (cases e)
  have "timer_inv (advance now s)" using inv by (rule timer_inv_advance)
  then show ?thesis
    by (cases ev)
      (simp_all add: e timer_inv_startCaptionDetection timer_inv_stopCaptionDetection
         timer_inv_checkForClosedCaptions timer_inv_settled timer_inv_hideOverlay)
qed

lemma timer_inv_run: "timer_inv s \<Longrightarrow> timer_inv (run evs s)"
  unfolding run_def by (induction evs arbitrary: s) (simp_all add: timer_inv_step)

lemma timer_inv_new_detector: "timer_inv new_detector"
  by (simp add: timer_inv_def new_detector_def)

lemma processWordBuffer_sends:
  assumes "trim (wordBuffer s) \<noteq> []"
    and "wordBuffer s \<notin> skippedTexts s" and "wordBuffer s \<notin> processedTexts s"
    and "lastTranslationTime s + 2000 \<le> now"
  shows "processWordBuffer now s =
           s\<lparr> lastTranslationTime := now,
              processedTexts := insert (wordBuffer s) (processedTexts s),
              sendCalls := sendCalls s @ [wordBuffer s],
              sendSeen := sendSeen s @ [(True, now)], wordBuffer := [] \<rparr>"
  using assms by (simp add: processWordBuffer_def sendForTranslation_def Let_def)

section \<open>The flush\<close>

text \<open>
  C5: a flush of a word buffer that holds text makes its checks in this order. (a) A text
  in \<open>skippedTexts\<close> is dropped: the buffer is emptied and nothing else happens. (b) Else
  a text in \<open>processedTexts\<close> is dropped in the same way. (c) Else, less than 2000 ms after
  the last dispatch, the buffer, the sets and the time stamp stay as they are and a timer
  for the same flush is set, due 2000 ms later. (d) Else the text, which was not in
  \<open>processedTexts\<close> before the flush, is dispatched: one call of the dispatch function is
  made with it, and at the moment of that call the dispatch function finds the text already
  in \<open>processedTexts\<close> and the time stamp already set to the current time (the entry
  \<open>(True, now)\<close> of \<open>sendSeen\<close>; a flush that called first and recorded afterwards would
  leave \<open>False\<close> and the old time stamp there); then the buffer is emptied, and nothing
  else changes. In case (c), when the flush came from the only timer and the time stamp is
  not in the future, running the timers 2000 ms later makes the call with the same text,
  again on a detector that already holds it.
\<close>

theorem processWordBuffer_checks_in_order:
  assumes "trim (wordBuffer s) \<noteq> []"
  shows
    "(wordBuffer s \<in> skippedTexts s \<longrightarrow> processWordBuffer now s = s\<lparr> wordBuffer := [] \<rparr>) \<and>
     (wordBuffer s \<notin> skippedTexts s \<and> wordBuffer s \<in> processedTexts s \<longrightarrow>
        processWordBuffer now s = s\<lparr> wordBuffer := [] \<rparr>) \<and>
     (wordBuffer s \<notin> skippedTexts s \<and> wordBuffer s \<notin> processedTexts s \<and>
      now - lastTranslationTime s < 2000 \<longrightarrow>
        processWordBuffer now s =
          s\<lparr> bufferTimeout := Some (nextTimerId s),
             timers := timers s @ [(nextTimerId s, now + 2000)],
             nextTimerId := Suc (nextTimerId s) \<rparr> \<and>
        (timers s = [] \<and> lastTranslationTime s \<le> now \<longrightarrow>
           sendCalls (advance (now + 2000) (processWordBuffer now s))
             = sendCalls s @ [wordBuffer s] \<and>
           sendSeen (advance (now + 2000) (processWordBuffer now s))
             = sendSeen s @ [(True, now + 2000)])) \<and>
     (wordBuffer s \<notin> skippedTexts s \<and> wordBuffer s \<notin> processedTexts s \<and>
      \<not> now - lastTranslationTime s < 2000 \<longrightarrow>
        processWordBuffer now s =
          s\<lparr> lastTranslationTime := now,
             processedTexts := insert (wordBuffer s) (processedTexts s),
             sendCalls := sendCalls s @ [wordBuffer s],
             sendSeen := sendSeen s @ [(True, now)],
             wordBuffer := [] \<rparr> \<and>
        processWordBuffer now s =
          (sendForTranslation (wordBuffer s)
             (s\<lparr> lastTranslationTime := now,
                 processedTexts := insert (wordBuffer s) (processedTexts s) \<rparr>))
          \<lparr> wordBuffer := [] \<rparr> \<and>
        sendCalls (processWordBuffer now s) = sendCalls s @ [wordBuffer s] \<and>
        sendSeen (processWordBuffer now s) = sendSeen s @ [(True, now)] \<and>
        processedTexts (processWordBuffer now s) = insert (wordBuffer s) (processedTexts s) \<and>
        lastTranslationTime (processWordBuffer now s) = now)"
proof -
  let ?retry = "s\<lparr> bufferTimeout := Some (nextTimerId s),
                   timers := timers s @ [(nextTimerId s, now + 2000)],
                   nextTimerId := Suc (nextTimerId s) \<rparr>"
  have later: "timers s = [] \<and> lastTranslationTime s \<le> now \<and>
               wordBuffer s \<notin> skippedTexts s \<and> wordBuffer s \<notin> processedTexts s \<longrightarrow>
          sendCalls (advance (now + 2000) ?retry) = sendCalls s @ [wordBuffer s] \<and>
          sendSeen (advance (now + 2000) ?retry) = sendSeen s @ [(True, now + 2000)]"
  proof
    assume a: "timers s = [] \<and> lastTranslationTime s \<le> now \<and>
               wordBuffer s \<notin> skippedTexts s \<and> wordBuffer s \<notin> processedTexts s"
    let ?fired = "?retry\<lparr> timers := [] \<rparr>"
    have "advance (now + 2000) ?retry = processWordBuffer (now + 2000) ?fired"
      using a by (simp add: advance_one_timer)
    moreover have "processWordBuffer (now + 2000) ?fired =
           ?fired\<lparr> lastTranslationTime := now + 2000,
              processedTexts := insert (wordBuffer ?fired) (processedTexts ?fired),
              sendCalls := sendCalls ?fired @ [wordBuffer ?fired],
              sendSeen := sendSeen ?fired @ [(True, now + 2000)], wordBuffer := [] \<rparr>"
      using assms a by (intro processWordBuffer_sends) simp_all
    ultimately show "sendCalls (advance (now + 2000) ?retry) = sendCalls s @ [wordBuffer s] \<and>
          sendSeen (advance (now + 2000) ?retry) = sendSeen s @ [(True, now + 2000)]"
      by simp
  qed
  show ?thesis
    using assms later
    by (simp add: processWordBuffer_def setBufferTimeout_def sendForTranslation_def Let_def)
qed

theorem processWordBuffer_checks_in_order_witness:
  "trim ''Hi all'' \<noteq> [] \<and>
   processWordBuffer 5000 (new_detector\<lparr> wordBuffer := ''Hi all'', skippedTexts := {''Hi all''},
       processedTexts := {''Hi all''}, lastTranslationTime := 4000 \<rparr>)
     = new_detector\<lparr> wordBuffer := ''Hi all'', skippedTexts := {''Hi all''},
         processedTexts := {''Hi all''}, lastTranslationTime := 4000, wordBuffer := [] \<rparr> \<and>
   processWordBuffer 5000 (new_detector\<lparr> wordBuffer := ''Hi all'',
       processedTexts := {''Hi all''}, lastTranslationTime := 4000 \<rparr>)
     = new_detector\<lparr> wordBuffer := ''Hi all'', processedTexts := {''Hi all''},
         lastTranslationTime := 4000, wordBuffer := [] \<rparr> \<and>
   timers (processWordBuffer 5000
       (new_detector\<lparr> wordBuffer := ''Hi all'', lastTranslationTime := 4000 \<rparr>))
     = [(1, 7000)] \<and>
   wordBuffer (processWordBuffer 5000
       (new_detector\<lparr> wordBuffer := ''Hi all'', lastTranslationTime := 4000 \<rparr>))
     = ''Hi all'' \<and>
   sendCalls (advance 7000 (processWordBuffer 5000
       (new_detector\<lparr> wordBuffer := ''Hi all'', lastTranslationTime := 4000 \<rparr>)))
     = [''Hi all''] \<and>
   sendCalls (processWordBuffer 6000
       (new_detector\<lparr> wordBuffer := ''Hi all'', lastTranslationTime := 4000 \<rparr>))
     = [''Hi all''] \<and>
   processedTexts (processWordBuffer 6000
       (new_detector\<lparr> wordBuffer := ''Hi all'', lastTranslationTime := 4000 \<rparr>))
     = {''Hi all''} \<and>
   sendSeen (processWordBuffer 6000
       (new_detector\<lparr> wordBuffer := ''Hi all'', lastTranslationTime := 4000 \<rparr>))
     = [(True, 6000)] \<and>
   sendSeen (advance 7000 (processWordBuffer 5000
       (new_detector\<lparr> wordBuffer := ''Hi all'', lastTranslationTime := 4000 \<rparr>)))
     = [(True, 7000)]"
proof -
  let ?skipped = "new_detector\<lparr> wordBuffer := ''Hi all'', skippedTexts := {''Hi all''},
       processedTexts := {''Hi all''}, lastTranslationTime := 4000 \<rparr>"
  let ?sent = "new_detector\<lparr> wordBuffer := ''Hi all'',
       processedTexts := {''Hi all''}, lastTranslationTime := 4000 \<rparr>"
  let ?held = "new_detector\<lparr> wordBuffer := ''Hi all'', lastTranslationTime := 4000 \<rparr>"
  have h: "trim ''Hi all'' \<noteq> []" by code_simp
  have hs: "trim (wordBuffer ?skipped) \<noteq> []" "trim (wordBuffer ?sent) \<noteq> []"
    "trim (wordBuffer ?held) \<noteq> []"
    using h by simp_all
  have a: "processWordBuffer 5000 ?skipped = ?skipped\<lparr> wordBuffer := [] \<rparr>"
    using processWordBuffer_checks_in_order [OF hs(1), of 5000] by simp
  have b: "processWordBuffer 5000 ?sent = ?sent\<lparr> wordBuffer := [] \<rparr>"
    using processWordBuffer_checks_in_order [OF hs(2), of 5000]
    by (simp add: new_detector_def)
  have held: "wordBuffer ?held \<notin> skippedTexts ?held \<and> wordBuffer ?held \<notin> processedTexts ?held \<and>
              5000 - lastTranslationTime ?held < 2000"
    and single: "timers ?held = [] \<and> lastTranslationTime ?held \<le> 5000"
    by (simp_all add: new_detector_def)
  note retried = processWordBuffer_checks_in_order [OF hs(3), of 5000]
  have retry: "processWordBuffer 5000 ?held =
          ?held\<lparr> bufferTimeout := Some (nextTimerId ?held),
             timers := timers ?held @ [(nextTimerId ?held, 5000 + 2000)],
             nextTimerId := Suc (nextTimerId ?held) \<rparr>"
    using retried held by blast
  have later: "sendCalls (advance (5000 + 2000) (processWordBuffer 5000 ?held))
                 = sendCalls ?held @ [wordBuffer ?held]"
    and seen_later: "sendSeen (advance (5000 + 2000) (processWordBuffer 5000 ?held))
                 = sendSeen ?held @ [(True, 5000 + 2000)]"
    using retried held single by blast+
  have c: "timers (processWordBuffer 5000 ?held) = [(1, 7000)] \<and>
           wordBuffer (processWordBuffer 5000 ?held) = ''Hi all'' \<and>
           sendCalls (advance 7000 (processWordBuffer 5000 ?held)) = [''Hi all'']"
  proof (intro conjI)
    show "timers (processWordBuffer 5000 ?held) = [(1, 7000)]"
      unfolding retry by (simp add: new_detector_def)
    show "wordBuffer (processWordBuffer 5000 ?held) = ''Hi all''"
      unfolding retry by simp
    have "sendCalls ?held @ [wordBuffer ?held] = [''Hi all'']"
      by (simp add: new_detector_def)
    with later show "sendCalls (advance 7000 (processWordBuffer 5000 ?held)) = [''Hi all'']"
      by simp
  qed
  have due: "wordBuffer ?held \<notin> skippedTexts ?held \<and> wordBuffer ?held \<notin> processedTexts ?held \<and>
             \<not> 6000 - lastTranslationTime ?held < 2000"
    by (simp add: new_detector_def)
  note sent = processWordBuffer_checks_in_order [OF hs(3), of 6000]
  have d1: "sendCalls (processWordBuffer 6000 ?held) = sendCalls ?held @ [wordBuffer ?held]"
    and d2: "sendSeen (processWordBuffer 6000 ?held) = sendSeen ?held @ [(True, 6000)]"
    and d3: "processedTexts (processWordBuffer 6000 ?held)
               = insert (wordBuffer ?held) (processedTexts ?held)"
    using sent due by blast+
  have d: "sendCalls (processWordBuffer 6000 ?held) = [''Hi all''] \<and>
           processedTexts (processWordBuffer 6000 ?held) = {''Hi all''} \<and>
           sendSeen (processWordBuffer 6000 ?held) = [(True, 6000)]"
    unfolding d1 d2 d3 by (simp add: new_detector_def)
  have e: "sendSeen (advance 7000 (processWordBuffer 5000 ?held)) = [(True, 7000)]"
  proof -
    have "sendSeen ?held @ [(True, 5000 + 2000)] = [(True, 7000)]"
      by (simp add: new_detector_def)
    with seen_later show ?thesis by simp
  qed
  from h a b c d e show ?thesis by blast
qed

section \<open>Debounce\<close>

text \<open>
  C7, as the code has it. Take an idle buffer (empty, no timer pending) and three
  fragments that are not blank and, like the text they join to, in neither
  \<open>processedTexts\<close> nor \<open>skippedTexts\<close>; append them at the times \<open>t1\<close>, \<open>t2\<close>, \<open>t3\<close>, each
  at most 500 ms after the one before, the timers that are due running before each append;
  let the last dispatch be no later than \<open>t3\<close>. Then the buffer holds the three fragments
  joined by single spaces and one timer is pending, due at \<open>t3 + 2000\<close>. Running the timers
  at a time before that does nothing. Running them at a time \<open>u\<close> from \<open>t3 + 2000\<close> on makes
  one call of the dispatch function, with the joined text, empties the buffer and leaves no
  timer, so that running the timers at any time \<open>v\<close> after it does nothing more.

  In general: an append of a fragment in neither set joins it to the buffer with one space
  (none when the buffer is empty), cancels the pending timer and sets a new one due 2000 ms
  later; an append of a fragment in one of the two sets changes nothing; and a flush of an
  empty buffer changes nothing.
\<close>

theorem debounce_coalescing:
  assumes idle: "wordBuffer s0 = []" "timers s0 = []"
    and frags: "trim f1 \<noteq> []" "trim f2 \<noteq> []" "trim f3 \<noteq> []"
    and fresh: "f1 \<notin> processedTexts s0 \<union> skippedTexts s0"
      "f2 \<notin> processedTexts s0 \<union> skippedTexts s0"
      "f3 \<notin> processedTexts s0 \<union> skippedTexts s0"
      "f1 @ '' '' @ f2 @ '' '' @ f3 \<notin> processedTexts s0 \<union> skippedTexts s0"
    and times: "t1 \<le> t2" "t2 - t1 \<le> 500" "t2 \<le> t3" "t3 - t2 \<le> 500"
    and last: "lastTranslationTime s0 \<le> t3"
    and s3: "s3 = addToWordBuffer t3 f3 (advance t3
                    (addToWordBuffer t2 f2 (advance t2 (addToWordBuffer t1 f1 s0))))"
  shows
    "wordBuffer s3 = f1 @ '' '' @ f2 @ '' '' @ f3 \<and>
     timers s3 = [(nextTimerId s0 + 2, t3 + 2000)] \<and>
     sendCalls s3 = sendCalls s0 \<and>
     (u < t3 + 2000 \<longrightarrow> advance u s3 = s3) \<and>
     (t3 + 2000 \<le> u \<longrightarrow>
        sendCalls (advance u s3) = sendCalls s0 @ [f1 @ '' '' @ f2 @ '' '' @ f3] \<and>
        wordBuffer (advance u s3) = [] \<and> timers (advance u s3) = [] \<and>
        advance v (advance u s3) = advance u s3) \<and>
     (timer_inv s \<and> g \<notin> processedTexts s \<union> skippedTexts s \<longrightarrow>
        addToWordBuffer now g s =
          s\<lparr> wordBuffer := (if wordBuffer s = [] then g else wordBuffer s @ '' '' @ g),
             bufferTimeout := Some (nextTimerId s),
             timers := [(nextTimerId s, now + 2000)],
             nextTimerId := Suc (nextTimerId s) \<rparr>) \<and>
     (g \<in> processedTexts s \<union> skippedTexts s \<longrightarrow> addToWordBuffer now g s = s) \<and>
     (wordBuffer s = [] \<longrightarrow> processWordBuffer now s = s)"
proof -
  define a1 where "a1 = addToWordBuffer t1 f1 s0"
  define a2 where "a2 = addToWordBuffer t2 f2 (advance t2 a1)"
  have nonempty: "f1 \<noteq> []"
    using frags(1) by (auto simp: trim_eq_Nil)
  have visible: "trim (f1 @ '' '' @ f2 @ '' '' @ f3) \<noteq> []"
    using frags(1) by (rule trim_append_nonblank)
  have inv0: "timer_inv s0" using idle by (simp add: timer_inv_def)
  have a1_eq: "a1 = s0\<lparr> wordBuffer := f1, bufferTimeout := Some (nextTimerId s0),
                        timers := [(nextTimerId s0, t1 + 2000)],
                        nextTimerId := Suc (nextTimerId s0) \<rparr>"
    unfolding a1_def using fresh(1) inv0 idle(1) by (simp add: addToWordBuffer_appends)
  have adv1: "advance t2 a1 = a1"
    using times by (simp add: a1_eq advance_one_timer)
  have inv1: "timer_inv a1" by (simp add: a1_eq timer_inv_def)
  have a2_eq: "a2 = s0\<lparr> wordBuffer := f1 @ '' '' @ f2,
                        bufferTimeout := Some (nextTimerId s0 + 1),
                        timers := [(nextTimerId s0 + 1, t2 + 2000)],
                        nextTimerId := nextTimerId s0 + 2 \<rparr>"
  proof -
    have "f2 \<notin> skippedTexts a1" "f2 \<notin> processedTexts a1"
      using fresh(2) by (simp_all add: a1_eq)
    then have "a2 = a1\<lparr> wordBuffer := (if wordBuffer a1 = [] then f2
                             else wordBuffer a1 @ '' '' @ f2),
              bufferTimeout := Some (nextTimerId a1),
              timers := [(nextTimerId a1, t2 + 2000)],
              nextTimerId := Suc (nextTimerId a1) \<rparr>"
      unfolding a2_def adv1 using inv1 by (rule addToWordBuffer_appends)
    then show ?thesis using nonempty by (simp add: a1_eq)
  qed
  have adv2: "advance t3 a2 = a2"
    using times by (simp add: a2_eq advance_one_timer)
  have inv2: "timer_inv a2" by (simp add: a2_eq timer_inv_def)
  have s3_eq: "s3 = s0\<lparr> wordBuffer := f1 @ '' '' @ f2 @ '' '' @ f3,
                        bufferTimeout := Some (nextTimerId s0 + 2),
                        timers := [(nextTimerId s0 + 2, t3 + 2000)],
                        nextTimerId := nextTimerId s0 + 3 \<rparr>"
  proof -
    have "f3 \<notin> skippedTexts a2" "f3 \<notin> processedTexts a2"
      using fresh(3) by (simp_all add: a2_eq)
    then have "addToWordBuffer t3 f3 a2 = a2\<lparr> wordBuffer := (if wordBuffer a2 = [] then f3
                             else wordBuffer a2 @ '' '' @ f3),
              bufferTimeout := Some (nextTimerId a2),
              timers := [(nextTimerId a2, t3 + 2000)],
              nextTimerId := Suc (nextTimerId a2) \<rparr>"
      using inv2 by (rule addToWordBuffer_appends)
    moreover have "s3 = addToWordBuffer t3 f3 a2"
      by (simp add: s3 a2_def a1_def adv2 [unfolded a2_def a1_def])
    ultimately show ?thesis by (simp add: a2_eq)
  qed
  have before: "u < t3 + 2000 \<longrightarrow> advance u s3 = s3"
    by (simp add: s3_eq advance_one_timer)
  have flush: "t3 + 2000 \<le> u \<longrightarrow>
        advance u s3 = s0\<lparr> wordBuffer := [],
                        bufferTimeout := Some (nextTimerId s0 + 2),
                        timers := [],
                        nextTimerId := nextTimerId s0 + 3,
                        lastTranslationTime := u,
                        processedTexts :=
                          insert (f1 @ '' '' @ f2 @ '' '' @ f3) (processedTexts s0),
                        sendCalls := sendCalls s0 @ [f1 @ '' '' @ f2 @ '' '' @ f3],
                        sendSeen := sendSeen s0 @ [(True, u)] \<rparr>"
  proof
    assume due: "t3 + 2000 \<le> u"
    let ?p = "s3\<lparr> timers := [] \<rparr>"
    have "advance u s3 = processWordBuffer u ?p"
      using due by (simp add: s3_eq advance_one_timer)
    moreover have "processWordBuffer u ?p =
           ?p\<lparr> lastTranslationTime := u,
              processedTexts := insert (wordBuffer ?p) (processedTexts ?p),
              sendCalls := sendCalls ?p @ [wordBuffer ?p],
              sendSeen := sendSeen ?p @ [(True, u)], wordBuffer := [] \<rparr>"
      using visible fresh(4) last due
      by (intro processWordBuffer_sends) (simp_all add: s3_eq)
    ultimately show "advance u s3 = s0\<lparr> wordBuffer := [],
                        bufferTimeout := Some (nextTimerId s0 + 2),
                        timers := [],
                        nextTimerId := nextTimerId s0 + 3,
                        lastTranslationTime := u,
                        processedTexts :=
                          insert (f1 @ '' '' @ f2 @ '' '' @ f3) (processedTexts s0),
                        sendCalls := sendCalls s0 @ [f1 @ '' '' @ f2 @ '' '' @ f3],
                        sendSeen := sendSeen s0 @ [(True, u)] \<rparr>"
      by (simp add: s3_eq)
  qed
  have after: "t3 + 2000 \<le> u \<longrightarrow>
        sendCalls (advance u s3) = sendCalls s0 @ [f1 @ '' '' @ f2 @ '' '' @ f3] \<and>
        wordBuffer (advance u s3) = [] \<and> timers (advance u s3) = [] \<and>
        advance v (advance u s3) = advance u s3"
    using flush by (simp add: advance_no_timer)
  have general1: "timer_inv s \<and> g \<notin> processedTexts s \<union> skippedTexts s \<longrightarrow>
        addToWordBuffer now g s =
          s\<lparr> wordBuffer := (if wordBuffer s = [] then g else wordBuffer s @ '' '' @ g),
             bufferTimeout := Some (nextTimerId s),
             timers := [(nextTimerId s, now + 2000)],
             nextTimerId := Suc (nextTimerId s) \<rparr>"
    using addToWordBuffer_appends [of g s now] by simp
  have general2: "g \<in> processedTexts s \<union> skippedTexts s \<longrightarrow> addToWordBuffer now g s = s"
    using addToWordBuffer_drops [of g s now] by auto
  have general3: "wordBuffer s = [] \<longrightarrow> processWordBuffer now s = s"
    by (simp add: processWordBuffer_def trim_def)
  have "wordBuffer s3 = f1 @ '' '' @ f2 @ '' '' @ f3"
    "timers s3 = [(nextTimerId s0 + 2, t3 + 2000)]" "sendCalls s3 = sendCalls s0"
    by (simp_all add: s3_eq)
  with before after general1 general2 general3 show ?thesis by blast
qed

theorem debounce_coalescing_witness:
  "wordBuffer new_detector = [] \<and> timers new_detector = [] \<and>
   trim ''Hello'' \<noteq> [] \<and> trim ''there'' \<noteq> [] \<and> trim ''friend'' \<noteq> [] \<and>
   lastTranslationTime new_detector \<le> 1000900 \<and>
   wordBuffer (addToWordBuffer 1000900 ''friend'' (advance 1000900
      (addToWordBuffer 1000400 ''there'' (advance 1000400
         (addToWordBuffer 1000000 ''Hello'' new_detector))))) = ''Hello there friend'' \<and>
   advance 1002899 (addToWordBuffer 1000900 ''friend'' (advance 1000900
      (addToWordBuffer 1000400 ''there'' (advance 1000400
         (addToWordBuffer 1000000 ''Hello'' new_detector)))))
     = addToWordBuffer 1000900 ''friend'' (advance 1000900
      (addToWordBuffer 1000400 ''there'' (advance 1000400
         (addToWordBuffer 1000000 ''Hello'' new_detector)))) \<and>
   sendCalls (advance 1002900 (addToWordBuffer 1000900 ''friend'' (advance 1000900
      (addToWordBuffer 1000400 ''there'' (advance 1000400
         (addToWordBuffer 1000000 ''Hello'' new_detector))))))
     = [''Hello there friend''] \<and>
   advance 1009000 (advance 1002900 (addToWordBuffer 1000900 ''friend'' (advance 1000900
      (addToWordBuffer 1000400 ''there'' (advance 1000400
         (addToWordBuffer 1000000 ''Hello'' new_detector))))))
     = advance 1002900 (addToWordBuffer 1000900 ''friend'' (advance 1000900
      (addToWordBuffer 1000400 ''there'' (advance 1000400
         (addToWordBuffer 1000000 ''Hello'' new_detector)))))"
proof -
  have i1: "wordBuffer new_detector = []" and i2: "timers new_detector = []"
    by (simp_all add: new_detector_def)
  have n1: "trim ''Hello'' \<noteq> []" and n2: "trim ''there'' \<noteq> []" and n3: "trim ''friend'' \<noteq> []"
    by code_simp+
  have f1: "''Hello'' \<notin> processedTexts new_detector \<union> skippedTexts new_detector"
    and f2: "''there'' \<notin> processedTexts new_detector \<union> skippedTexts new_detector"
    and f3: "''friend'' \<notin> processedTexts new_detector \<union> skippedTexts new_detector"
    and f4: "''Hello'' @ '' '' @ ''there'' @ '' '' @ ''friend''
               \<notin> processedTexts new_detector \<union> skippedTexts new_detector"
    by (simp_all add: new_detector_def)
  have t1: "(1000000::int) \<le> 1000400" and t2: "(1000400::int) - 1000000 \<le> 500"
    and t3: "(1000400::int) \<le> 1000900" and t4: "(1000900::int) - 1000400 \<le> 500"
    by simp_all
  have l: "lastTranslationTime new_detector \<le> 1000900" by (simp add: new_detector_def)
  have calls: "sendCalls new_detector = []" by (simp add: new_detector_def)
  note coalesced = debounce_coalescing [OF i1 i2 n1 n2 n3 f1 f2 f3 f4 t1 t2 t3 t4 l refl]
  show ?thesis
    using coalesced [where u = 1002899 and v = 1009000 and s = new_detector and g = "''Hello''"
        and now = 1000000]
      coalesced [where u = 1002900 and v = 1009000 and s = new_detector and g = "''Hello''"
        and now = 1000000]
      i1 i2 n1 n2 n3 l calls
    by simp
qed

text \<open>
  The claim as stated fails on an append of a text that has been dispatched: after the
  first example session, whose dispatch carried \<open>Good morning\<close>, an append of
  \<open>Good morning\<close> is not joined to the buffer and sets no timer.
\<close>

theorem dispatched_fragment_counterexample:
  "''Good morning'' \<in> processedTexts (run first_session new_detector) \<and>
   wordBuffer (run first_session new_detector) = [] \<and>
   wordBuffer (addToWordBuffer 1005000 ''Good morning'' (run first_session new_detector)) = [] \<and>
   timers (addToWordBuffer 1005000 ''Good morning'' (run first_session new_detector)) = []"
  by code_simp

section \<open>Stop\<close>

lemma stopCaptionDetection_eq:
  "stopCaptionDetection s =
     s\<lparr> isMonitoring := False, monitoringActive := False, observer := False,
        checkInterval := False,
        timers := (case bufferTimeout s of None \<Rightarrow> timers s
                   | Some h \<Rightarrow> filter (\<lambda>(i, due). i \<noteq> h) (timers s)),
        bufferTimeout := None, wordBuffer := [], processedTexts := {},
        skippedTexts := {}, isFirstCaption := True \<rparr>"
proof (cases "bufferTimeout s")
  case None
  then show ?thesis
    by (cases "observer s"; cases "checkInterval s")
      (simp_all add: stopCaptionDetection_def Let_def)
next
  case (Some h)
  then show ?thesis
    by (cases "observer s"; cases "checkInterval s")
      (simp_all add: stopCaptionDetection_def clearTimeout_def Let_def)
qed

text \<open>
  C8, as the code has it. The stop command has no failing branch, and a second stop
  changes nothing: for the detector \<open>s'\<close> after a stop, a stop gives \<open>s'\<close> again. A stop
  lowers both monitoring flags, disconnects the observer, clears the interval, cancels the
  timer whose handle \<open>bufferTimeout\<close> holds (so that no timer is pending and running the
  timers does nothing, when that was the only one), empties the word buffer,
  \<open>processedTexts\<close> and \<open>skippedTexts\<close>, and raises the first-caption flag. It leaves
  \<open>processedWords\<close>, the last text and the last seen element as they are. These three are
  reset by the next start: after a start command on \<open>s'\<close>, whatever its own pass finds,
  the session is running, \<open>processedWords\<close> is empty, no element is recorded as last
  seen, and the last text is the caption that the pass of the start found, or empty when
  it found none.
\<close>

theorem stop_clears_session:
  assumes "s' = stopCaptionDetection s"
  shows
    "stopCaptionDetection s' = s' \<and>
     \<not> isMonitoring s' \<and> \<not> monitoringActive s' \<and> \<not> observer s' \<and> \<not> checkInterval s' \<and>
     bufferTimeout s' = None \<and>
     timers s' = (case bufferTimeout s of None \<Rightarrow> timers s
                  | Some h \<Rightarrow> filter (\<lambda>(i, due). i \<noteq> h) (timers s)) \<and>
     (timer_inv s \<longrightarrow> timers s' = [] \<and> advance now s' = s') \<and>
     wordBuffer s' = [] \<and> processedTexts s' = {} \<and> skippedTexts s' = {} \<and>
     isFirstCaption s' \<and>
     processedWords s' = processedWords s \<and>
     lastProcessedText s' = lastProcessedText s \<and>
     lastSeenCaptionElement s' = lastSeenCaptionElement s \<and>
     isMonitoring (startCaptionDetection t located s') \<and>
     monitoringActive (startCaptionDetection t located s') \<and>
     processedWords (startCaptionDetection t located s') = {} \<and>
     lastSeenCaptionElement (startCaptionDetection t located s') = None \<and>
     lastProcessedText (startCaptionDetection t located s')
       = (case located of None \<Rightarrow> [] | Some (e, found) \<Rightarrow> found)"
proof -
  have stop_eq: "s' = s\<lparr> isMonitoring := False, monitoringActive := False, observer := False,
                      checkInterval := False,
                      timers := (case bufferTimeout s of None \<Rightarrow> timers s
                                 | Some h \<Rightarrow> filter (\<lambda>(i, due). i \<noteq> h) (timers s)),
                      bufferTimeout := None, wordBuffer := [], processedTexts := {},
                      skippedTexts := {}, isFirstCaption := True \<rparr>"
    unfolding assms by (rule stopCaptionDetection_eq)
  have idem: "stopCaptionDetection s' = s'"
    by (subst stopCaptionDetection_eq) (simp add: stop_eq)
  have fields: "\<not> isMonitoring s' \<and> \<not> monitoringActive s' \<and> \<not> observer s' \<and> \<not> checkInterval s' \<and>
     bufferTimeout s' = None \<and>
     wordBuffer s' = [] \<and> processedTexts s' = {} \<and> skippedTexts s' = {} \<and>
     isFirstCaption s' \<and>
     processedWords s' = processedWords s \<and>
     lastProcessedText s' = lastProcessedText s \<and>
     lastSeenCaptionElement s' = lastSeenCaptionElement s"
    by (simp add: stop_eq)
  have pending: "timers s' = (case bufferTimeout s of None \<Rightarrow> timers s
                  | Some h \<Rightarrow> filter (\<lambda>(i, due). i \<noteq> h) (timers s))"
    by (simp add: stop_eq)
  have none: "timer_inv s \<longrightarrow> timers s' = [] \<and> advance now s' = s'"
    unfolding assms by (simp add: timers_stopCaptionDetection advance_no_timer)
  have stopped: "\<not> isMonitoring s'" by (simp add: stop_eq)
  have restart: "isMonitoring (startCaptionDetection t located s') \<and>
     monitoringActive (startCaptionDetection t located s') \<and>
     processedWords (startCaptionDetection t located s') = {} \<and>
     lastSeenCaptionElement (startCaptionDetection t located s') = None \<and>
     lastProcessedText (startCaptionDetection t located s')
       = (case located of None \<Rightarrow> [] | Some (e, found) \<Rightarrow> found)"
    using stopped
    by (auto simp: startCaptionDetection_def checkForClosedCaptions_def Let_def
          split: option.splits)
  from idem fields pending none restart show ?thesis by blast
qed

theorem stop_clears_session_witness:
  "timer_inv (run shorter_session new_detector) \<and>
   timers (run shorter_session new_detector) = [(1, 1002500)] \<and>
   wordBuffer (run shorter_session new_detector) = ''Hello there'' \<and>
   lastSeenCaptionElement (run shorter_session new_detector) = Some 8 \<and>
   timers (stopCaptionDetection (run shorter_session new_detector)) = [] \<and>
   wordBuffer (stopCaptionDetection (run shorter_session new_detector)) = [] \<and>
   advance 1002500 (stopCaptionDetection (run shorter_session new_detector))
     = stopCaptionDetection (run shorter_session new_detector) \<and>
   stopCaptionDetection (stopCaptionDetection (run shorter_session new_detector))
     = stopCaptionDetection (run shorter_session new_detector) \<and>
   lastProcessedText (startCaptionDetection 1003000 None
       (stopCaptionDetection (run shorter_session new_detector))) = [] \<and>
   lastSeenCaptionElement (startCaptionDetection 1003000 None
       (stopCaptionDetection (run shorter_session new_detector))) = None \<and>
   lastProcessedText (startCaptionDetection 1003000 (Some (9, ''Welcome back''))
       (stopCaptionDetection (run shorter_session new_detector))) = ''Welcome back'' \<and>
   lastSeenCaptionElement (startCaptionDetection 1003000 (Some (9, ''Welcome back''))
       (stopCaptionDetection (run shorter_session new_detector))) = None"
proof -
  let ?s = "run shorter_session new_detector"
  have inv: "timer_inv ?s" by code_simp
  have pending: "timers ?s = [(1, 1002500)]" by code_simp
  have buf: "wordBuffer ?s = ''Hello there''" by code_simp
  have seen: "lastSeenCaptionElement ?s = Some 8" by code_simp
  note stopped = stop_clears_session [OF refl, where s = ?s and now = 1002500 and t = 1003000]
  have cleared: "timers (stopCaptionDetection ?s) = [] \<and>
      wordBuffer (stopCaptionDetection ?s) = [] \<and>
      advance 1002500 (stopCaptionDetection ?s) = stopCaptionDetection ?s \<and>
      stopCaptionDetection (stopCaptionDetection ?s) = stopCaptionDetection ?s"
    using stopped [where located = None] inv by blast
  have quiet: "lastProcessedText (startCaptionDetection 1003000 None (stopCaptionDetection ?s)) = [] \<and>
      lastSeenCaptionElement (startCaptionDetection 1003000 None (stopCaptionDetection ?s)) = None"
    using stopped [where located = None] by simp
  have found: "lastProcessedText (startCaptionDetection 1003000 (Some (9, ''Welcome back''))
         (stopCaptionDetection ?s)) = ''Welcome back'' \<and>
      lastSeenCaptionElement (startCaptionDetection 1003000 (Some (9, ''Welcome back''))
         (stopCaptionDetection ?s)) = None"
    using stopped [where located = "Some (9, ''Welcome back'')"] by simp
  from inv pending buf seen cleared quiet found show ?thesis by blast
qed

text \<open>
  The claim as stated fails on the last-observation state: a stop in a session whose last
  text is \<open>Hello there\<close>, on the element 8, leaves both, also when it is repeated.
\<close>

theorem stop_keeps_last_observation_counterexample:
  "lastProcessedText (stopCaptionDetection (run shorter_session new_detector))
     = ''Hello there'' \<and>
   lastSeenCaptionElement (stopCaptionDetection (run shorter_session new_detector)) = Some 8 \<and>
   lastProcessedText (stopCaptionDetection (stopCaptionDetection
      (run shorter_session new_detector))) = ''Hello there''"
  by code_simp

section \<open>A failed send\<close>

text \<open>
  C9, as the code has it. Let the request for a dispatched text \<open>T\<close> fail in a running
  session with its overlay. The end of the request changes the overlay only: it shows \<open>T\<close>
  as the original and, as the translation, \<open>[Translation Error: T]\<close> when the request was
  rejected (a network error) and \<open>[Translated: T]\<close> when the response was not ok. \<open>T\<close>
  stays in \<open>processedTexts\<close>, no call of the dispatch function and no timer is added, and
  no sequence of events without the stop command calls the dispatch function with \<open>T\<close>
  afterwards.
\<close>

theorem failed_send_is_shown:
  assumes "isConnected s" and "translationOverlay s = Some ov"
    and "isMonitoring s" and "no_stop evs" and "T \<in> processedTexts s"
    and "outcome = Rejected \<or> outcome = NotOk"
    and "s' = sendForTranslation_settled T outcome s"
  shows
    "s' = s\<lparr> translationOverlay :=
              Some (ov\<lparr> original_text := T,
                       translated_text := (if outcome = Rejected
                                           then ''[Translation Error: '' @ T @ '']''
                                           else ''[Translated: '' @ T @ '']''),
                       shown := True \<rparr>) \<rparr> \<and>
     T \<in> processedTexts s' \<and> sendCalls s' = sendCalls s \<and> timers s' = timers s \<and>
     wordBuffer s' = wordBuffer s \<and>
     T \<notin> set (drop (length (sendCalls s)) (sendCalls (run evs s')))"
proof -
  have shown: "s' = s\<lparr> translationOverlay :=
              Some (ov\<lparr> original_text := T,
                       translated_text := (if outcome = Rejected
                                           then ''[Translation Error: '' @ T @ '']''
                                           else ''[Translated: '' @ T @ '']''),
                       shown := True \<rparr>) \<rparr>"
    using assms(1,2,6,7)
    by (auto simp: sendForTranslation_settled_def displayTranslation_def)
  have kept: "T \<in> processedTexts s' \<and> sendCalls s' = sendCalls s \<and> timers s' = timers s \<and>
     wordBuffer s' = wordBuffer s \<and> isMonitoring s'"
    using assms(3,5) by (simp add: assms(7))
  then have "guarded T s' (run evs s')"
    using assms(4) by (simp add: guarded_run)
  with kept obtain new where "sendCalls (run evs s') = sendCalls s @ new" and "T \<notin> set new"
    by (auto simp: guarded_def)
  then have "T \<notin> set (drop (length (sendCalls s)) (sendCalls (run evs s')))" by simp
  with shown kept show ?thesis by blast
qed

theorem failed_send_is_shown_witness:
  "isConnected (run first_session new_detector) \<and>
   isMonitoring (run first_session new_detector) \<and> no_stop repeat_session \<and>
   ''Good morning'' \<in> processedTexts (run first_session new_detector) \<and>
   translationOverlay (sendForTranslation_settled ''Good morning'' Rejected
       (run first_session new_detector))
     = Some \<lparr> original_text = ''Good morning'',
              translated_text = ''[Translation Error: Good morning]'', shown = True \<rparr> \<and>
   ''Good morning'' \<in> processedTexts (sendForTranslation_settled ''Good morning'' Rejected
       (run first_session new_detector)) \<and>
   ''Good morning'' \<notin> set (drop 1 (sendCalls (run repeat_session
       (sendForTranslation_settled ''Good morning'' Rejected
          (run first_session new_detector)))))"
proof -
  let ?s = "run first_session new_detector"
  have h1: "isConnected ?s" by code_simp
  have h2: "translationOverlay ?s
              = Some \<lparr> original_text = ''-'', translated_text = ''-'', shown = False \<rparr>"
    by code_simp
  have h3: "isMonitoring ?s" by code_simp
  have h4: "no_stop repeat_session" by code_simp
  have h5: "''Good morning'' \<in> processedTexts ?s" by code_simp
  have h6: "Rejected = Rejected \<or> Rejected = NotOk" by simp
  have calls: "length (sendCalls ?s) = 1" by code_simp
  note shown = failed_send_is_shown [OF h1 h2 h3 h4 h5 h6 refl]
  have overlay: "translationOverlay (sendForTranslation_settled ''Good morning'' Rejected ?s)
     = Some \<lparr> original_text = ''Good morning'',
              translated_text = ''[Translation Error: Good morning]'', shown = True \<rparr>"
    using shown by simp
  have kept: "''Good morning'' \<in> processedTexts
                 (sendForTranslation_settled ''Good morning'' Rejected ?s)"
    using shown by blast
  have "''Good morning'' \<notin> set (drop (length (sendCalls ?s)) (sendCalls (run repeat_session
       (sendForTranslation_settled ''Good morning'' Rejected ?s))))"
    using shown by blast
  then have rest: "''Good morning'' \<notin> set (drop 1 (sendCalls (run repeat_session
       (sendForTranslation_settled ''Good morning'' Rejected ?s))))"
    unfolding calls .
  from h1 h3 h4 h5 overlay kept rest show ?thesis by blast
qed

text \<open>
  The claim as stated fails on a response that is not ok: the overlay then shows
  \<open>[Translated: Hi all]\<close> for the text \<open>Hi all\<close>, not the error string.
\<close>

theorem not_ok_response_counterexample:
  "translationOverlay (sendForTranslation_settled ''Hi all'' NotOk new_detector) =
     Some \<lparr> original_text = ''Hi all'', translated_text = ''[Translated: Hi all]'', shown = True \<rparr> \<and>
   translationOverlay (sendForTranslation_settled ''Hi all'' NotOk new_detector) \<noteq>
     Some \<lparr> original_text = ''Hi all'', translated_text = ''[Translation Error: Hi all]'',
            shown = True \<rparr>"
  by (simp add: sendForTranslation_settled_def displayTranslation_def new_detector_def)


end
